theory Spec2Isabelle
  imports Main
begin

section \<open>Code units and character classes\<close>

text \<open>
  A query is a JavaScript string, a sequence of code units. The model covers the code units
  U+0000 to U+00FF (one \<^typ>\<open>char\<close> each, read by \<^const>\<open>of_char\<close>), which
  contains every character the regular expressions of \<open>src/index.ts\<close> name.
\<close>

definition cu :: "char \<Rightarrow> int" where
  "cu c = of_char c"

text \<open>ECMAScript \<open>LineTerminator\<close>: LF and CR (U+2028 and U+2029 lie outside the modelled range).\<close>

definition isLineTerminator :: "char \<Rightarrow> bool" where
  "isLineTerminator c \<longleftrightarrow> (let n = cu c in n = 10 \<or> n = 13)"

text \<open>
  ECMAScript \<open>WhiteSpace\<close>: TAB, VT, FF, SP and NBSP (the other space characters lie
  outside the modelled range).
\<close>

definition isWhiteSpace :: "char \<Rightarrow> bool" where
  "isWhiteSpace c \<longleftrightarrow> (let n = cu c in n = 9 \<or> n = 11 \<or> n = 12 \<or> n = 32 \<or> n = 160)"

text \<open>The class \<open>\s\<close>, which is also the set that \<open>String.prototype.trim\<close> removes.\<close>

definition isSpace :: "char \<Rightarrow> bool" where
  "isSpace c \<longleftrightarrow> isWhiteSpace c \<or> isLineTerminator c"

text \<open>The class \<open>\w\<close> (no \<open>u\<close> flag): ASCII letters, digits and the underscore.\<close>

definition isWordChar :: "char \<Rightarrow> bool" where
  "isWordChar c \<longleftrightarrow>
     (let n = cu c
      in (97 \<le> n \<and> n \<le> 122) \<or> (65 \<le> n \<and> n \<le> 90) \<or> (48 \<le> n \<and> n \<le> 57) \<or> n = 95)"

text \<open>
  \<open>String.prototype.toUpperCase\<close> on one code unit: \<open>a\<close>-\<open>z\<close> and the Latin-1 lower-case
  letters move down by 32, U+00DF becomes \<open>SS\<close>. U+00B5 and U+00FF have upper-case forms
  beyond U+00FF; they are kept as they are, which no pattern can tell apart.
\<close>

definition upperCaseChar :: "char \<Rightarrow> string" where
  "upperCaseChar c =
     (let n = cu c
      in if 97 \<le> n \<and> n \<le> 122 then [char_of (n - 32)]
         else if n = 223 then ''SS''
         else if 224 \<le> n \<and> n \<le> 254 \<and> n \<noteq> 247 then [char_of (n - 32)]
         else [c])"

definition toUpperCase :: "string \<Rightarrow> string" where
  "toUpperCase s = concat (map upperCaseChar s)"

definition trim :: "string \<Rightarrow> string" where
  "trim s = rev (dropWhile isSpace (rev (dropWhile isSpace s)))"

section \<open>Comment removal\<close>

text \<open>
  \<open>query.replace(/--.*$/gm, '')\<close>: scanning from the left, every \<open>--\<close> is deleted together
  with the code units after it up to, and not including, the next line terminator (\<open>.\<close> does
  not match one, and \<open>$\<close> with the \<open>m\<close> flag holds before one and at the end).
\<close>

function strip_line_comments :: "string \<Rightarrow> string" where
  "strip_line_comments [] = []"
| "strip_line_comments [x] = [x]"
| "strip_line_comments (x # y # xs) =
     (if x = CHR ''-'' \<and> y = CHR ''-''
      then strip_line_comments (dropWhile (\<lambda>c. \<not> isLineTerminator c) xs)
      else x # strip_line_comments (y # xs))"
  by pat_completeness auto
termination
  by (relation "measure length") (auto simp: less_Suc_eq_le le_SucI length_dropWhile_le)

text \<open>The rest of the text after the first \<open>*/\<close>, if there is one.\<close>

fun after_close :: "string \<Rightarrow> string option" where
  "after_close [] = None"
| "after_close [x] = None"
| "after_close (x # y # xs) =
     (if x = CHR ''*'' \<and> y = CHR ''/'' then Some xs else after_close (y # xs))"

text \<open>
  \<open>.replace(/\/\*[\s\S]*?\*\//g, '')\<close>: a \<open>/*\<close> that has a \<open>*/\<close> after it is deleted up to
  and including the first such \<open>*/\<close>; a \<open>/*\<close> that is never closed stays. Nothing is put in
  the place of a deleted comment.
\<close>

function strip_block_comments :: "string \<Rightarrow> string" where
  "strip_block_comments [] = []"
| "strip_block_comments [x] = [x]"
| "strip_block_comments (x # y # xs) =
     (if x = CHR ''/'' \<and> y = CHR ''*''
      then (case after_close xs of
              Some r \<Rightarrow> strip_block_comments r
            | None \<Rightarrow> x # strip_block_comments (y # xs))
      else x # strip_block_comments (y # xs))"
  by pat_completeness auto
termination
proof (relation "measure length")
  have shorter: "length r < length s" if "after_close s = Some r" for s r
    using that by (induction s rule: after_close.induct) (auto split: if_splits)
  fix x y :: char and xs r :: string
  assume "after_close xs = Some r"
  then show "(r, x # y # xs) \<in> measure length"
    using shorter [of xs r] by simp
qed auto

definition normalizedQuery :: "string \<Rightarrow> string" where
  "normalizedQuery q = toUpperCase (trim (strip_block_comments (strip_line_comments q)))"

section \<open>The patterns\<close>

text \<open>
  Every pattern of \<open>dmlPatterns\<close> is a sequence of three kinds of atom: the assertion
  \<open>\b\<close>, a literal letter, and \<open>\s+\<close>.
\<close>

datatype atom = WordBoundary | Lit char | Spaces1

text \<open>
  \<open>Canonicalize\<close> of a code unit under the \<open>i\<close> flag without the \<open>u\<close> flag: its upper case
  when that is a single code unit, except that a code unit from 128 on is never mapped
  below 128.
\<close>

definition canonicalize :: "char \<Rightarrow> char" where
  "canonicalize c =
     (case upperCaseChar c of
        [u] \<Rightarrow> if 128 \<le> cu c \<and> cu u < 128 then c else u
      | _ \<Rightarrow> c)"

fun isWordOpt :: "char option \<Rightarrow> bool" where
  "isWordOpt None = False"
| "isWordOpt (Some c) = isWordChar c"

fun next_char :: "string \<Rightarrow> char option" where
  "next_char [] = None"
| "next_char (x # xs) = Some x"

text \<open>
  \<open>matches p prev s\<close>: the atoms \<open>p\<close> match a prefix of \<open>s\<close>, where \<open>prev\<close> is the code unit
  before \<open>s\<close> in the text, if any. \<open>test\<close> asks only whether a match exists, so every
  length of a \<open>\s+\<close> run is tried.
\<close>

fun matches :: "atom list \<Rightarrow> char option \<Rightarrow> string \<Rightarrow> bool" where
  "matches [] prev s = True"
| "matches (WordBoundary # p) prev s =
     (if isWordOpt prev = isWordOpt (next_char s) then False else matches p prev s)"
| "matches (Lit c # p) prev [] = False"
| "matches (Lit c # p) prev (x # xs) =
     (if canonicalize x = canonicalize c then matches p (Some x) xs else False)"
| "matches (Spaces1 # p) prev [] = False"
| "matches (Spaces1 # p) prev (x # xs) =
     (if isSpace x
      then (if matches p (Some x) xs then True else matches (Spaces1 # p) (Some x) xs)
      else False)"

text \<open>\<open>pattern.test(text)\<close>: a match may start at any position of the text.\<close>

fun search :: "atom list \<Rightarrow> char option \<Rightarrow> string \<Rightarrow> bool" where
  "search p prev [] = matches p prev []"
| "search p prev (x # xs) = (if matches p prev (x # xs) then True else search p (Some x) xs)"

definition regex_test :: "atom list \<Rightarrow> string \<Rightarrow> bool" where
  "regex_test p s = search p None s"

text \<open>
  \<open>keyword_regex [w1, ..., wn]\<close> is the pattern \<open>/\bw1\s+...\s+wn\b/i\<close>.
\<close>

fun words_atoms :: "string list \<Rightarrow> atom list" where
  "words_atoms [] = []"
| "words_atoms [w] = map Lit w"
| "words_atoms (w # v # ws) = map Lit w @ Spaces1 # words_atoms (v # ws)"

definition keyword_regex :: "string list \<Rightarrow> atom list" where
  "keyword_regex ws = WordBoundary # words_atoms ws @ [WordBoundary]"

definition dmlPatterns :: "(atom list \<times> string) list" where
  "dmlPatterns =
    [(keyword_regex [''CREATE'', ''TABLE''], ''CREATE TABLE''),
     (keyword_regex [''CREATE'', ''OR'', ''REPLACE'', ''TABLE''], ''CREATE OR REPLACE TABLE''),
     (keyword_regex [''DROP'', ''TABLE''], ''DROP TABLE''),
     (keyword_regex [''ALTER'', ''TABLE''], ''ALTER TABLE''),
     (keyword_regex [''INSERT'', ''INTO''], ''INSERT INTO''),
     (keyword_regex [''UPDATE''], ''UPDATE''),
     (keyword_regex [''DELETE'', ''FROM''], ''DELETE FROM''),
     (keyword_regex [''MERGE'', ''INTO''], ''MERGE INTO''),
     (keyword_regex [''TRUNCATE'', ''TABLE''], ''TRUNCATE TABLE''),
     (keyword_regex [''CREATE'', ''VIEW''], ''CREATE VIEW''),
     (keyword_regex [''CREATE'', ''OR'', ''REPLACE'', ''VIEW''], ''CREATE OR REPLACE VIEW''),
     (keyword_regex [''DROP'', ''VIEW''], ''DROP VIEW''),
     (keyword_regex [''CREATE'', ''FUNCTION''], ''CREATE FUNCTION''),
     (keyword_regex [''DROP'', ''FUNCTION''], ''DROP FUNCTION''),
     (keyword_regex [''CREATE'', ''PROCEDURE''], ''CREATE PROCEDURE''),
     (keyword_regex [''DROP'', ''PROCEDURE''], ''DROP PROCEDURE''),
     (keyword_regex [''GRANT''], ''GRANT''),
     (keyword_regex [''REVOKE''], ''REVOKE''),
     (keyword_regex [''BEGIN'', ''TRANSACTION''], ''BEGIN TRANSACTION''),
     (keyword_regex [''COMMIT''], ''COMMIT''),
     (keyword_regex [''ROLLBACK''], ''ROLLBACK'')]"

section \<open>The classifier\<close>

record dml_check =
  isDML :: bool
  message :: "string option"

definition dml_message :: "string \<Rightarrow> string" where
  "dml_message name = ''DML statement detected: '' @ name @ ''. Only SELECT queries are allowed.''"

text \<open>The \<open>for\<close> loop over the patterns: the first pattern that matches decides.\<close>

fun check_patterns :: "(atom list \<times> string) list \<Rightarrow> string \<Rightarrow> dml_check" where
  "check_patterns [] s = \<lparr>isDML = False, message = None\<rparr>"
| "check_patterns ((pattern, name) # ps) s =
     (if regex_test pattern s
      then \<lparr>isDML = True, message = Some (dml_message name)\<rparr>
      else check_patterns ps s)"

definition containsDMLStatements :: "string \<Rightarrow> dml_check" where
  "containsDMLStatements q = check_patterns dmlPatterns (normalizedQuery q)"

section \<open>What the patterns mean\<close>

text \<open>
  The words of each pattern, in the order of \<open>dmlPatterns\<close>: entry \<open>i\<close> of \<open>dmlPatterns\<close>
  is \<open>keyword_regex\<close> of the words of entry \<open>i\<close> here, under the same name.
\<close>

definition dmlKeywords :: "(string list \<times> string) list" where
  "dmlKeywords =
    [([''CREATE'', ''TABLE''], ''CREATE TABLE''),
     ([''CREATE'', ''OR'', ''REPLACE'', ''TABLE''], ''CREATE OR REPLACE TABLE''),
     ([''DROP'', ''TABLE''], ''DROP TABLE''),
     ([''ALTER'', ''TABLE''], ''ALTER TABLE''),
     ([''INSERT'', ''INTO''], ''INSERT INTO''),
     ([''UPDATE''], ''UPDATE''),
     ([''DELETE'', ''FROM''], ''DELETE FROM''),
     ([''MERGE'', ''INTO''], ''MERGE INTO''),
     ([''TRUNCATE'', ''TABLE''], ''TRUNCATE TABLE''),
     ([''CREATE'', ''VIEW''], ''CREATE VIEW''),
     ([''CREATE'', ''OR'', ''REPLACE'', ''VIEW''], ''CREATE OR REPLACE VIEW''),
     ([''DROP'', ''VIEW''], ''DROP VIEW''),
     ([''CREATE'', ''FUNCTION''], ''CREATE FUNCTION''),
     ([''DROP'', ''FUNCTION''], ''DROP FUNCTION''),
     ([''CREATE'', ''PROCEDURE''], ''CREATE PROCEDURE''),
     ([''DROP'', ''PROCEDURE''], ''DROP PROCEDURE''),
     ([''GRANT''], ''GRANT''),
     ([''REVOKE''], ''REVOKE''),
     ([''BEGIN'', ''TRANSACTION''], ''BEGIN TRANSACTION''),
     ([''COMMIT''], ''COMMIT''),
     ([''ROLLBACK''], ''ROLLBACK'')]"

text \<open>Two texts that the \<open>i\<close> flag does not tell apart.\<close>

definition ci_eq :: "string \<Rightarrow> string \<Rightarrow> bool" where
  "ci_eq w a \<longleftrightarrow> map canonicalize a = map canonicalize w"

definition space_run :: "string \<Rightarrow> bool" where
  "space_run g \<longleftrightarrow> g \<noteq> [] \<and> list_all isSpace g"

text \<open>
  \<open>phrase ws s\<close>: the text \<open>s\<close> is the words \<open>ws\<close>, in any letter case, with a run of one or
  more white-space code units between two words.
\<close>

fun phrase :: "string list \<Rightarrow> string \<Rightarrow> bool" where
  "phrase [] s \<longleftrightarrow> s = []"
| "phrase [w] s \<longleftrightarrow> ci_eq w s"
| "phrase (w # v # ws) s \<longleftrightarrow>
     (\<exists>a g r. s = a @ g @ r \<and> ci_eq w a \<and> space_run g \<and> phrase (v # ws) r)"

fun last_char :: "string \<Rightarrow> char option" where
  "last_char [] = None"
| "last_char (x # xs) = Some (last (x # xs))"

text \<open>
  A whole-word occurrence of the words \<open>ws\<close> in the text \<open>t\<close>: the phrase stands in \<open>t\<close>
  with no word character right before it and none right after it.
\<close>

definition whole_word :: "string list \<Rightarrow> string \<Rightarrow> bool" where
  "whole_word ws t \<longleftrightarrow>
     (\<exists>pre occ post. t = pre @ occ @ post \<and> phrase ws occ \<and>
        \<not> isWordOpt (last_char pre) \<and> \<not> isWordOpt (next_char post))"

definition upper_letter :: "char \<Rightarrow> bool" where
  "upper_letter c \<longleftrightarrow> 65 \<le> cu c \<and> cu c \<le> 90"

definition keyword :: "string \<Rightarrow> bool" where
  "keyword w \<longleftrightarrow> w \<noteq> [] \<and> list_all upper_letter w"

section \<open>Queries with comments\<close>

text \<open>
  A query written as stretches of code text and comments, in order. \<open>render\<close> is the
  query itself; \<open>code_text\<close> is its code text alone.
\<close>

datatype segment = Code string | LineComment string | BlockComment string

fun render_segment :: "segment \<Rightarrow> string" where
  "render_segment (Code c) = c"
| "render_segment (LineComment t) = ''--'' @ t"
| "render_segment (BlockComment b) = ''/*'' @ b @ ''*/''"

definition render :: "segment list \<Rightarrow> string" where
  "render segs = concat (map render_segment segs)"

fun code_of :: "segment \<Rightarrow> string" where
  "code_of (Code c) = c"
| "code_of (LineComment t) = []"
| "code_of (BlockComment b) = []"

definition code_text :: "segment list \<Rightarrow> string" where
  "code_text segs = concat (map code_of segs)"










section \<open>Byte counts\<close>

text \<open>Size limit for queries (1 TB in bytes).\<close>

definition SIZE_LIMIT_BYTES :: int where
  "SIZE_LIMIT_BYTES = 1099511627776"

text \<open>
  A value that was thrown: an \<open>Error\<close> with its message, or any other value with the text
  that \<open>String\<close> gives it. \<open>thrown_text\<close> is
  \<open>error instanceof Error ? error.message : String(error)\<close>.
\<close>

datatype js_thrown = JsError string | JsValue string

fun thrown_text :: "js_thrown \<Rightarrow> string" where
  "thrown_text (JsError m) = m"
| "thrown_text (JsValue v) = v"

definition digit_value :: "char \<Rightarrow> int option" where
  "digit_value c =
     (let n = cu c
      in if 48 \<le> n \<and> n \<le> 57 then Some (n - 48)
         else if 97 \<le> n \<and> n \<le> 102 then Some (n - 87)
         else if 65 \<le> n \<and> n \<le> 70 then Some (n - 55)
         else None)"

fun digits_value :: "int \<Rightarrow> string \<Rightarrow> int \<Rightarrow> int option" where
  "digits_value b [] acc = Some acc"
| "digits_value b (c # cs) acc =
     (case digit_value c of
        None \<Rightarrow> None
      | Some d \<Rightarrow> if d < b then digits_value b cs (acc * b + d) else None)"

definition digits1 :: "int \<Rightarrow> string \<Rightarrow> int option" where
  "digits1 b cs = (if cs = [] then None else digits_value b cs 0)"

text \<open>
  \<open>StringToBigInt\<close> of ECMAScript: white space around the literal is dropped, the empty
  text is 0, a decimal literal may carry a sign, and \<open>0x\<close>, \<open>0o\<close>, \<open>0b\<close> introduce the
  other radixes. \<open>None\<close> is the text that is no integer literal.
\<close>

definition StringToBigInt :: "string \<Rightarrow> int option" where
  "StringToBigInt str =
     (case trim str of
        [] \<Rightarrow> Some 0
      | c # cs \<Rightarrow>
          if c = CHR ''+'' then digits1 10 cs
          else if c = CHR ''-'' then map_option uminus (digits1 10 cs)
          else if c = CHR ''0'' \<and> cs \<noteq> [] \<and> (hd cs = CHR ''x'' \<or> hd cs = CHR ''X'')
            then digits1 16 (tl cs)
          else if c = CHR ''0'' \<and> cs \<noteq> [] \<and> (hd cs = CHR ''o'' \<or> hd cs = CHR ''O'')
            then digits1 8 (tl cs)
          else if c = CHR ''0'' \<and> cs \<noteq> [] \<and> (hd cs = CHR ''b'' \<or> hd cs = CHR ''B'')
            then digits1 2 (tl cs)
          else digits1 10 (c # cs))"

text \<open>
  \<open>BigInt(totalBytesProcessed)\<close> on a string: the integer, or a thrown \<open>SyntaxError\<close>
  (with the message that V8 gives it).
\<close>

definition BigInt :: "string \<Rightarrow> js_thrown + int" where
  "BigInt str =
     (case StringToBigInt str of
        None \<Rightarrow> Inl (JsError (''Cannot convert '' @ str @ '' to a BigInt''))
      | Some n \<Rightarrow> Inr n)"

text \<open>
  The decimal text of a byte count, as the BigQuery API writes \<open>totalBytesProcessed\<close>.
\<close>

definition digit_char :: "nat \<Rightarrow> char" where
  "digit_char d = char_of (48 + int d)"

fun decimal :: "nat \<Rightarrow> string" where
  "decimal n = (if n < 10 then [digit_char n] else decimal (n div 10) @ [digit_char (n mod 10)])"

declare decimal.simps [simp del]

definition is_digit :: "char \<Rightarrow> bool" where
  "is_digit c \<longleftrightarrow> 48 \<le> cu c \<and> cu c \<le> 57"

section \<open>The BigQuery client\<close>

record query_options =
  query :: string
  dryRun :: "bool option"
  projectId :: "string option"
  maxResults :: "int option"

text \<open>The calls that reach the client, in the order in which they are made.\<close>

datatype call = CreateQueryJob query_options | Query query_options

text \<open>
  What a handler takes from outside the source file. \<open>createQueryJob\<close> answers with a
  thrown value or with a job, of which the handlers read
  \<open>metadata.statistics.totalBytesProcessed\<close>, a string; \<open>query_rows\<close> is
  \<open>bigquery.query\<close>, which answers with a thrown value or with the rows. The two
  renderings \<open>sizeInGB.toFixed(2)\<close> and \<open>sizeInTB.toFixed(4)\<close> of the byte count are
  floating-point computations and are taken as they come.
\<close>

record 'row env =
  createQueryJob :: "query_options \<Rightarrow> js_thrown + string"
  query_rows :: "query_options \<Rightarrow> js_thrown + 'row list"
  sizeInGB_toFixed2 :: "string \<Rightarrow> string"
  sizeInTB_toFixed4 :: "string \<Rightarrow> string"

section \<open>The tool handlers\<close>

datatype error_code = InvalidParams

datatype mcp_error = McpError error_code string

text \<open>
  The object that a handler hands to \<open>JSON.stringify\<close>: the report of a dry run
  (\<open>success: true\<close>, \<open>bytesProcessed\<close>, \<open>formattedSize\<close>, \<open>isBelowLimit\<close>, \<open>message\<close>), a
  failure (\<open>success: false\<close>, \<open>error\<close>), the refusal of a query over the limit
  (\<open>success: false\<close>, \<open>bytesProcessed\<close>, \<open>formattedSize\<close>, \<open>error\<close>) and the result of a run
  (\<open>success: true\<close>, \<open>bytesProcessed\<close>, \<open>formattedSize\<close>, \<open>rowCount\<close>, \<open>results\<close>).
\<close>

datatype 'row payload =
    DryRunReport string string bool string
  | Failure string
  | SizeExceeded string string string
  | Executed string string nat "'row list"

fun success :: "'row payload \<Rightarrow> bool" where
  "success (DryRunReport b f l m) = True"
| "success (Failure e) = False"
| "success (SizeExceeded b f e) = False"
| "success (Executed b f n rows) = True"

text \<open>\<open>...(projectId && { projectId })\<close>: the key is left out when the string is empty.\<close>

fun truthy :: "string option \<Rightarrow> string option" where
  "truthy None = None"
| "truthy (Some p) = (if p = [] then None else Some p)"

definition dry_run_options :: "string \<Rightarrow> string option \<Rightarrow> query_options" where
  "dry_run_options q pid =
     \<lparr>query = q, dryRun = Some True, projectId = truthy pid, maxResults = None\<rparr>"

definition run_options :: "string \<Rightarrow> string option \<Rightarrow> int option \<Rightarrow> query_options" where
  "run_options q pid mr =
     \<lparr>query = q, dryRun = None, projectId = truthy pid,
      maxResults = Some (case mr of None \<Rightarrow> 100 | Some m \<Rightarrow> m)\<rparr>"

text \<open>
  The handler of \<open>dry_run_query\<close>. It returns what the handler throws (\<open>Inl\<close>) or
  returns (\<open>Inr\<close>), and the calls made so far.
\<close>

definition dry_run_query ::
  "'row env \<Rightarrow> string \<Rightarrow> string option \<Rightarrow> call list \<Rightarrow> (mcp_error + 'row payload) \<times> call list" where
  "dry_run_query env q pid calls =
     (if q = [] then (Inl (McpError InvalidParams ''Query is required''), calls)
      else
        let options = dry_run_options q pid;
            calls1 = calls @ [CreateQueryJob options]
        in case createQueryJob env options of
             Inl e \<Rightarrow> (Inr (Failure (thrown_text e)), calls1)
           | Inr totalBytesProcessed \<Rightarrow>
               (case BigInt totalBytesProcessed of
                  Inl e \<Rightarrow> (Inr (Failure (thrown_text e)), calls1)
                | Inr n \<Rightarrow>
                    let isBelowLimit = n < SIZE_LIMIT_BYTES;
                        gb = sizeInGB_toFixed2 env totalBytesProcessed;
                        tb = sizeInTB_toFixed4 env totalBytesProcessed
                    in (Inr (DryRunReport totalBytesProcessed
                               (gb @ '' GB ('' @ tb @ '' TB)'')
                               isBelowLimit
                               (if isBelowLimit
                                then ''Dry run successful. Query will process '' @ gb @
                                     '' GB, which is below the 1 TB limit.''
                                else ''Dry run successful, but query will process '' @ gb @
                                     '' GB, which exceeds the 1 TB limit.'')),
                        calls1)))"

text \<open>
  The handler of \<open>run_query_with_validation\<close>. The classifier sets \<open>message\<close> whenever it
  sets \<open>isDML\<close>, so the \<open>error\<close> of the refusal is that message.
\<close>

definition run_query_with_validation ::
  "'row env \<Rightarrow> string \<Rightarrow> string option \<Rightarrow> int option \<Rightarrow> call list
     \<Rightarrow> (mcp_error + 'row payload) \<times> call list" where
  "run_query_with_validation env q pid mr calls =
     (if q = [] then (Inl (McpError InvalidParams ''Query is required''), calls)
      else
        let dmlCheck = containsDMLStatements q
        in if isDML dmlCheck
           then (Inr (Failure (case message dmlCheck of Some m \<Rightarrow> m | None \<Rightarrow> [])), calls)
           else
             let options = dry_run_options q pid;
                 calls1 = calls @ [CreateQueryJob options]
             in case createQueryJob env options of
                  Inl e \<Rightarrow> (Inr (Failure (thrown_text e)), calls1)
                | Inr totalBytesProcessed \<Rightarrow>
                    (case BigInt totalBytesProcessed of
                       Inl e \<Rightarrow> (Inr (Failure (thrown_text e)), calls1)
                     | Inr n \<Rightarrow>
                         let isBelowLimit = n < SIZE_LIMIT_BYTES;
                             gb = sizeInGB_toFixed2 env totalBytesProcessed
                         in if \<not> isBelowLimit
                            then (Inr (SizeExceeded totalBytesProcessed (gb @ '' GB'')
                                         (''Query would process '' @ gb @
                                          '' GB, which exceeds the 1 TB limit.'')),
                                  calls1)
                            else
                              let options2 = run_options q pid mr;
                                  calls2 = calls1 @ [Query options2]
                              in (case query_rows env options2 of
                                    Inl e \<Rightarrow> (Inr (Failure (thrown_text e)), calls2)
                                  | Inr rows \<Rightarrow>
                                      (Inr (Executed totalBytesProcessed (gb @ '' GB'')
                                              (length rows) rows),
                                       calls2))))"

text \<open>
  A client for the examples: it answers every dry run with \<open>job\<close> and every query with
  \<open>rows\<close>.
\<close>

definition fixed_env :: "js_thrown + string \<Rightarrow> js_thrown + 'row list \<Rightarrow> 'row env" where
  "fixed_env job rows =
     \<lparr>createQueryJob = (\<lambda>options. job), query_rows = (\<lambda>options. rows),
      sizeInGB_toFixed2 = (\<lambda>b. ''0.00''), sizeInTB_toFixed4 = (\<lambda>b. ''0.0000'')\<rparr>"

section \<open>The patterns find exactly the whole-word occurrences\<close>

lemma cu_range: "0 \<le> cu c \<and> cu c < 256"
proof -
  have "cu c mod 256 = cu c" by (simp add: cu_def)
  then show ?thesis by presburger
qed

lemma cu_char_of: "0 \<le> k \<Longrightarrow> k < 256 \<Longrightarrow> cu (char_of (k::int)) = k"
  by (simp add: cu_def)

lemma canonicalize_upper_letter: "upper_letter l \<Longrightarrow> canonicalize l = l"
  by (simp add: upper_letter_def canonicalize_def upperCaseChar_def Let_def)

lemma canonicalize_eq_letter:
  assumes "upper_letter l" "canonicalize x = canonicalize l"
  shows "isWordChar x"
proof -
  have l: "canonicalize x = l" using assms by (simp add: canonicalize_upper_letter)
  have r: "0 \<le> cu x \<and> cu x < 256" by (rule cu_range)
  show ?thesis
    using l r assms(1)
    by (auto simp: canonicalize_def upperCaseChar_def Let_def upper_letter_def isWordChar_def
        cu_char_of split: if_splits)
qed

lemma matches_lits:
  "matches (map Lit w @ r) prev s \<longleftrightarrow>
     (\<exists>a t. s = a @ t \<and> ci_eq w a \<and> matches r (case last_char a of None \<Rightarrow> prev | Some c \<Rightarrow> Some c) t)"
proof (induction w arbitrary: prev s)
  case Nil
  then show ?case by (auto simp: ci_eq_def)
next
  case (Cons c w)
  show ?case
  proof (cases s)
    case Nil
    then show ?thesis by (auto simp: ci_eq_def)
  next
    case (Cons x xs)
    show ?thesis
    proof
      assume "matches (map Lit (c # w) @ r) prev s"
      then have cx: "canonicalize x = canonicalize c" and "matches (map Lit w @ r) (Some x) xs"
        using Cons by (auto split: if_splits)
      then obtain a t where at: "xs = a @ t" "ci_eq w a"
        "matches r (case last_char a of None \<Rightarrow> Some x | Some c \<Rightarrow> Some c) t"
        using Cons.IH by blast
      have "s = (x # a) @ t" using Cons at by simp
      moreover have "ci_eq (c # w) (x # a)" using cx at by (simp add: ci_eq_def)
      moreover have "matches r (case last_char (x # a) of None \<Rightarrow> prev | Some c \<Rightarrow> Some c) t"
        using at(3) by (cases a) auto
      ultimately show "\<exists>a t. s = a @ t \<and> ci_eq (c # w) a \<and>
          matches r (case last_char a of None \<Rightarrow> prev | Some c \<Rightarrow> Some c) t"
        by blast
    next
      assume "\<exists>a t. s = a @ t \<and> ci_eq (c # w) a \<and>
          matches r (case last_char a of None \<Rightarrow> prev | Some c \<Rightarrow> Some c) t"
      then obtain a t where at: "s = a @ t" "ci_eq (c # w) a"
        "matches r (case last_char a of None \<Rightarrow> prev | Some c \<Rightarrow> Some c) t" by blast
      from at(2) obtain y a' where a: "a = y # a'" "canonicalize y = canonicalize c" "ci_eq w a'"
        by (cases a) (auto simp: ci_eq_def)
      have "y = x" "xs = a' @ t" using at(1) a(1) Cons by auto
      moreover have "matches r (case last_char a' of None \<Rightarrow> Some x | Some c \<Rightarrow> Some c) t"
        using at(3) a(1) \<open>y = x\<close> by (cases a') auto
      ultimately have "matches (map Lit w @ r) (Some x) xs"
        using Cons.IH a(3) by blast
      then show "matches (map Lit (c # w) @ r) prev s"
        using Cons a(2) \<open>y = x\<close> by simp
    qed
  qed
qed

lemma matches_spaces:
  "matches (Spaces1 # r) prev s \<longleftrightarrow>
     (\<exists>g t. s = g @ t \<and> space_run g \<and> matches r (last_char g) t)"
proof (induction s arbitrary: prev)
  case Nil
  then show ?case by (simp add: space_run_def)
next
  case (Cons x xs)
  show ?case
  proof
    assume m: "matches (Spaces1 # r) prev (x # xs)"
    then have sx: "isSpace x" by (simp split: if_splits)
    from m consider "matches r (Some x) xs" | "matches (Spaces1 # r) (Some x) xs"
      by (auto split: if_splits)
    then show "\<exists>g t. x # xs = g @ t \<and> space_run g \<and> matches r (last_char g) t"
    proof cases
      case 1
      then have "x # xs = [x] @ xs \<and> space_run [x] \<and> matches r (last_char [x]) xs"
        using sx by (simp add: space_run_def)
      then show ?thesis by blast
    next
      case 2
      then obtain g t where gt: "xs = g @ t" "space_run g" "matches r (last_char g) t"
        using Cons.IH by blast
      then have "x # xs = (x # g) @ t \<and> space_run (x # g) \<and> matches r (last_char (x # g)) t"
        using sx by (cases g) (auto simp: space_run_def)
      then show ?thesis by blast
    qed
  next
    assume "\<exists>g t. x # xs = g @ t \<and> space_run g \<and> matches r (last_char g) t"
    then obtain g t where gt: "x # xs = g @ t" "space_run g" "matches r (last_char g) t" by blast
    then obtain g' where g: "g = x # g'" by (cases g) (auto simp: space_run_def)
    have sx: "isSpace x" using gt(2) g by (simp add: space_run_def)
    show "matches (Spaces1 # r) prev (x # xs)"
    proof (cases g')
      case Nil
      then show ?thesis using gt g sx by simp
    next
      case (Cons y ys)
      then have "xs = g' @ t \<and> space_run g' \<and> matches r (last_char g') t"
        using gt g by (auto simp: space_run_def)
      then have "matches (Spaces1 # r) (Some x) xs" using Cons.IH by blast
      then show ?thesis using sx by simp
    qed
  qed
qed


lemma ci_eq_keyword:
  assumes "keyword w" "ci_eq w a"
  shows "a \<noteq> []" and "isWordChar (hd a)" and "isWordChar (last a)"
proof -
  have len: "length a = length w"
    using assms(2) unfolding ci_eq_def by (metis length_map)
  then show ne: "a \<noteq> []" using assms(1) by (auto simp: keyword_def)
  have all: "isWordChar (a ! i)" if "i < length a" for i
  proof -
    have "canonicalize (a ! i) = canonicalize (w ! i)"
      using assms(2) that len unfolding ci_eq_def by (metis nth_map)
    moreover have "upper_letter (w ! i)"
      using assms(1) that len by (simp add: keyword_def list_all_length)
    ultimately show ?thesis by (rule canonicalize_eq_letter [rotated])
  qed
  show "isWordChar (hd a)" using all [of 0] ne by (simp add: hd_conv_nth)
  show "isWordChar (last a)" using all [of "length a - 1"] ne by (simp add: last_conv_nth)
qed

lemma phrase_keyword:
  assumes "ws \<noteq> []" "list_all keyword ws" "phrase ws occ"
  shows "occ \<noteq> [] \<and> isWordChar (hd occ) \<and> isWordChar (last occ)"
  using assms
proof (induction ws arbitrary: occ rule: words_atoms.induct)
  case 1
  then show ?case by simp
next
  case (2 w)
  then show ?case using ci_eq_keyword [of w occ] by simp
next
  case (3 w v ws)
  from "3.prems"(3) obtain a g r where d: "occ = a @ g @ r" "ci_eq w a" "space_run g" "phrase (v # ws) r"
    unfolding phrase.simps by blast
  have a: "a \<noteq> []" "isWordChar (hd a)" using ci_eq_keyword [of w a] d(2) "3.prems" by auto
  have r: "r \<noteq> [] \<and> isWordChar (hd r) \<and> isWordChar (last r)"
    using "3.IH" [of r] d(4) "3.prems" by simp
  show ?case using a r d(1) by simp
qed

lemma last_char_conv: "last_char s = (if s = [] then None else Some (last s))"
  by (cases s) simp_all

lemma last_char_append: "t \<noteq> [] \<Longrightarrow> last_char (s @ t) = last_char t"
  by (simp add: last_char_conv)

lemma prev_after_nonempty:
  "a \<noteq> [] \<Longrightarrow> (case last_char a of None \<Rightarrow> prev | Some c \<Rightarrow> Some c) = last_char a"
  by (cases a) simp_all

lemma matches_words:
  assumes "ws \<noteq> []" "list_all keyword ws"
  shows "matches (words_atoms ws @ r) prev s \<longleftrightarrow>
     (\<exists>occ t. s = occ @ t \<and> phrase ws occ \<and> matches r (last_char occ) t)"
  using assms
proof (induction ws arbitrary: prev s rule: words_atoms.induct)
  case 1
  then show ?case by simp
next
  case (2 w)
  have "\<And>a. ci_eq w a \<Longrightarrow> (case last_char a of None \<Rightarrow> prev | Some c \<Rightarrow> Some c) = last_char a"
    using ci_eq_keyword(1) [of w] "2.prems" prev_after_nonempty by simp
  then have "(\<exists>a t. s = a @ t \<and> ci_eq w a \<and> matches r (case last_char a of None \<Rightarrow> prev | Some c \<Rightarrow> Some c) t)
      \<longleftrightarrow> (\<exists>occ t. s = occ @ t \<and> ci_eq w occ \<and> matches r (last_char occ) t)"
    by metis
  then show ?case unfolding words_atoms.simps phrase.simps matches_lits .
next
  case (3 w v ws)
  have kw: "keyword w" and rest: "list_all keyword (v # ws)" using "3.prems" by auto
  have lc: "\<And>a. ci_eq w a \<Longrightarrow> (case last_char a of None \<Rightarrow> prev | Some c \<Rightarrow> Some c) = last_char a"
    using ci_eq_keyword(1) [of w] kw prev_after_nonempty by simp
  have IH: "\<And>prev s. matches (words_atoms (v # ws) @ r) prev s \<longleftrightarrow>
     (\<exists>occ t. s = occ @ t \<and> phrase (v # ws) occ \<and> matches r (last_char occ) t)"
    using "3.IH" rest by simp
  have lastc: "last_char (a @ g @ o') = last_char o'" if "o' \<noteq> []" for a g o'
    using that by (simp add: last_char_append)
  let ?R = "words_atoms (v # ws) @ r"
  show ?case
  proof
    assume "matches (words_atoms (w # v # ws) @ r) prev s"
    then have "matches (map Lit w @ Spaces1 # ?R) prev s" by simp
    then obtain a t1 where 1: "s = a @ t1" "ci_eq w a"
      "matches (Spaces1 # ?R) (case last_char a of None \<Rightarrow> prev | Some c \<Rightarrow> Some c) t1"
      using matches_lits [of w "Spaces1 # ?R" prev s] by blast
    have "matches (Spaces1 # ?R) (last_char a) t1" using 1(3) lc [OF 1(2)] by simp
    then obtain g t2 where 2: "t1 = g @ t2" "space_run g" "matches ?R (last_char g) t2"
      using matches_spaces [of ?R "last_char a" t1] by blast
    from 2(3) obtain o' t where 3: "t2 = o' @ t" "phrase (v # ws) o'" "matches r (last_char o') t"
      using IH [of "last_char g" t2] by blast
    have ne: "o' \<noteq> []" using phrase_keyword [of "v # ws" o'] rest 3(2) by simp
    have "s = (a @ g @ o') @ t" using 1(1) 2(1) 3(1) by simp
    moreover have "phrase (w # v # ws) (a @ g @ o')"
      unfolding phrase.simps using 1(2) 2(2) 3(2) by blast
    moreover have "matches r (last_char (a @ g @ o')) t" using 3(3) lastc [OF ne] by simp
    ultimately show "\<exists>occ t. s = occ @ t \<and> phrase (w # v # ws) occ \<and> matches r (last_char occ) t"
      by blast
  next
    assume "\<exists>occ t. s = occ @ t \<and> phrase (w # v # ws) occ \<and> matches r (last_char occ) t"
    then obtain occ t where o: "s = occ @ t" "phrase (w # v # ws) occ" "matches r (last_char occ) t"
      by blast
    from o(2) obtain a g o' where d: "occ = a @ g @ o'" "ci_eq w a" "space_run g" "phrase (v # ws) o'"
      unfolding phrase.simps by blast
    have ne: "o' \<noteq> []" using phrase_keyword [of "v # ws" o'] rest d(4) by simp
    have "matches r (last_char o') t" using o(3) d(1) lastc [OF ne] by simp
    then have "matches ?R (last_char g) (o' @ t)"
      using IH [of "last_char g" "o' @ t"] d(4) by blast
    then have "matches (Spaces1 # ?R) (last_char a) (g @ o' @ t)"
      using matches_spaces [of ?R "last_char a" "g @ o' @ t"] d(3) by blast
    then have "matches (Spaces1 # ?R) (case last_char a of None \<Rightarrow> prev | Some c \<Rightarrow> Some c) (g @ o' @ t)"
      using lc [OF d(2)] by simp
    then have "matches (map Lit w @ Spaces1 # ?R) prev (a @ g @ o' @ t)"
      using matches_lits [of w "Spaces1 # ?R" prev "a @ g @ o' @ t"] d(2) by blast
    then show "matches (words_atoms (w # v # ws) @ r) prev s"
      using o(1) d(1) by simp
  qed
qed

lemma matches_boundary:
  "matches [WordBoundary] prev t \<longleftrightarrow> isWordOpt prev \<noteq> isWordOpt (next_char t)"
  by simp

lemma matches_keyword_regex:
  assumes "ws \<noteq> []" "list_all keyword ws"
  shows "matches (keyword_regex ws) prev s \<longleftrightarrow>
     \<not> isWordOpt prev \<and>
     (\<exists>occ t. s = occ @ t \<and> phrase ws occ \<and> \<not> isWordOpt (next_char t))"
proof -
  have ends: "isWordOpt (next_char (occ @ t)) \<and> isWordOpt (last_char occ)" if "phrase ws occ" for occ t
    using phrase_keyword [OF assms that] by (cases occ) auto
  have "matches (keyword_regex ws) prev s \<longleftrightarrow>
      isWordOpt prev \<noteq> isWordOpt (next_char s) \<and> matches (words_atoms ws @ [WordBoundary]) prev s"
    by (simp add: keyword_regex_def)
  also have "\<dots> \<longleftrightarrow> isWordOpt prev \<noteq> isWordOpt (next_char s) \<and>
      (\<exists>occ t. s = occ @ t \<and> phrase ws occ \<and> isWordOpt (last_char occ) \<noteq> isWordOpt (next_char t))"
    unfolding matches_words [OF assms] matches_boundary ..
  also have "\<dots> \<longleftrightarrow> \<not> isWordOpt prev \<and>
      (\<exists>occ t. s = occ @ t \<and> phrase ws occ \<and> \<not> isWordOpt (next_char t))"
    using ends by blast
  finally show ?thesis .
qed

lemma search_iff:
  "search p prev s \<longleftrightarrow>
     (\<exists>pre t. s = pre @ t \<and> matches p (case last_char pre of None \<Rightarrow> prev | Some c \<Rightarrow> Some c) t)"
proof (induction s arbitrary: prev)
  case Nil
  then show ?case by simp
next
  case (Cons x xs)
  show ?case
  proof
    assume "search p prev (x # xs)"
    then consider "matches p prev (x # xs)" | "search p (Some x) xs" by (auto split: if_splits)
    then show "\<exists>pre t. x # xs = pre @ t \<and>
        matches p (case last_char pre of None \<Rightarrow> prev | Some c \<Rightarrow> Some c) t"
    proof cases
      case 1
      then have "x # xs = [] @ (x # xs) \<and>
        matches p (case last_char [] of None \<Rightarrow> prev | Some c \<Rightarrow> Some c) (x # xs)" by simp
      then show ?thesis by blast
    next
      case 2
      then obtain pre t where pt: "xs = pre @ t"
        "matches p (case last_char pre of None \<Rightarrow> Some x | Some c \<Rightarrow> Some c) t"
        using Cons.IH by blast
      then have "x # xs = (x # pre) @ t \<and>
        matches p (case last_char (x # pre) of None \<Rightarrow> prev | Some c \<Rightarrow> Some c) t"
        by (cases pre) auto
      then show ?thesis by blast
    qed
  next
    assume "\<exists>pre t. x # xs = pre @ t \<and>
        matches p (case last_char pre of None \<Rightarrow> prev | Some c \<Rightarrow> Some c) t"
    then obtain pre t where pt: "x # xs = pre @ t"
        "matches p (case last_char pre of None \<Rightarrow> prev | Some c \<Rightarrow> Some c) t" by blast
    show "search p prev (x # xs)"
    proof (cases pre)
      case Nil
      then have "t = x # xs" using pt(1) by simp
      then show ?thesis using pt(2) Nil by simp
    next
      case (Cons y pre')
      then have "xs = pre' @ t \<and>
        matches p (case last_char pre' of None \<Rightarrow> Some x | Some c \<Rightarrow> Some c) t"
        using pt by (cases pre') auto
      then have "search p (Some x) xs" using Cons.IH by blast
      then show ?thesis by simp
    qed
  qed
qed

lemma regex_test_keyword:
  assumes "ws \<noteq> []" "list_all keyword ws"
  shows "regex_test (keyword_regex ws) t \<longleftrightarrow> whole_word ws t"
proof -
  have "(case last_char pre of None \<Rightarrow> None | Some c \<Rightarrow> Some c) = last_char pre" for pre
    by (simp split: option.splits)
  then show ?thesis
    unfolding regex_test_def whole_word_def search_iff matches_keyword_regex [OF assms]
    by auto
qed

section \<open>The loop over the patterns\<close>

lemma dmlPatterns_keywords:
  "dmlPatterns = map (\<lambda>(ws, name). (keyword_regex ws, name)) dmlKeywords"
  by (simp add: dmlPatterns_def dmlKeywords_def)

lemma dmlKeywords_keyword:
  "list_all (\<lambda>(ws, name). ws \<noteq> [] \<and> list_all keyword ws) dmlKeywords"
  by code_simp

lemma dmlKeywords_distinct: "distinct (map snd dmlKeywords)"
  by code_simp

lemma dml_message_inj: "dml_message a = dml_message b \<Longrightarrow> a = b"
  by (simp add: dml_message_def)


lemma check_patterns_reported:
  assumes "message (check_patterns ps t) = Some m"
  shows "\<exists>j<length ps. m = dml_message (snd (ps ! j)) \<and> regex_test (fst (ps ! j)) t"
  using assms
proof (induction ps)
  case Nil
  then show ?case by simp
next
  case (Cons e ps)
  obtain p name where e: "e = (p, name)" by (cases e)
  show ?case
  proof (cases "regex_test p t")
    case True
    then have "0 < length (e # ps) \<and> m = dml_message (snd ((e # ps) ! 0)) \<and>
        regex_test (fst ((e # ps) ! 0)) t"
      using Cons.prems e by simp
    then show ?thesis by blast
  next
    case False
    then obtain j where "j < length ps" "m = dml_message (snd (ps ! j))" "regex_test (fst (ps ! j)) t"
      using Cons e by auto
    then have "Suc j < length (e # ps) \<and> m = dml_message (snd ((e # ps) ! Suc j)) \<and>
        regex_test (fst ((e # ps) ! Suc j)) t" by simp
    then show ?thesis by blast
  qed
qed

lemma check_patterns_isDML: "isDML (check_patterns ps t) \<longleftrightarrow> message (check_patterns ps t) \<noteq> None"
  by (induction ps) (auto split: if_splits)

lemma regex_test_entry:
  assumes "i < length dmlKeywords"
  shows "regex_test (fst (dmlPatterns ! i)) t \<longleftrightarrow> whole_word (fst (dmlKeywords ! i)) t"
    and "snd (dmlPatterns ! i) = snd (dmlKeywords ! i)"
proof -
  obtain ws name where e: "dmlKeywords ! i = (ws, name)" by (cases "dmlKeywords ! i")
  have "(\<lambda>(ws, name). ws \<noteq> [] \<and> list_all keyword ws) (dmlKeywords ! i)"
    using dmlKeywords_keyword assms by (simp add: list_all_length)
  then have ok: "ws \<noteq> []" "list_all keyword ws" using e by auto
  have p: "dmlPatterns ! i = (keyword_regex ws, name)"
    using assms e by (simp add: dmlPatterns_keywords)
  show "regex_test (fst (dmlPatterns ! i)) t \<longleftrightarrow> whole_word (fst (dmlKeywords ! i)) t"
    using regex_test_keyword [OF ok] p e by simp
  show "snd (dmlPatterns ! i) = snd (dmlKeywords ! i)" using p e by simp
qed

lemma length_dmlPatterns: "length dmlPatterns = length dmlKeywords"
  by (simp add: dmlPatterns_keywords)

section \<open>Comment removal on well-formed queries\<close>






lemma next_char_render_cons:
  "next_char (render (s # r)) =
     (case render_segment s of [] \<Rightarrow> next_char (render r) | x # u \<Rightarrow> Some x)"
  by (simp add: render_def split: list.splits)







section \<open>Trimming and upper-casing around an occurrence\<close>


















lemma code_text_append: "code_text (xs @ ys) = code_text xs @ code_text ys"
  by (simp add: code_text_def)




text \<open>An entry is reported only where its words stand as whole words in the normalized text.\<close>

lemma reported_construct_is_whole_word:
  assumes "(ws, name) \<in> set dmlKeywords"
    and "message (containsDMLStatements q) = Some (dml_message name)"
  shows "whole_word ws (normalizedQuery q)"
proof -
  let ?t = "normalizedQuery q"
  obtain j where j: "j < length dmlPatterns" "dml_message name = dml_message (snd (dmlPatterns ! j))"
    "regex_test (fst (dmlPatterns ! j)) ?t"
    using check_patterns_reported [of dmlPatterns ?t "dml_message name"] assms(2)
    by (auto simp: containsDMLStatements_def)
  have jl: "j < length dmlKeywords" using j(1) by (simp add: length_dmlPatterns)
  obtain i where i: "i < length dmlKeywords" "dmlKeywords ! i = (ws, name)"
    using assms(1) by (auto simp: in_set_conv_nth)
  have "snd (dmlKeywords ! j) = name"
    using j(2) jl by (simp add: regex_test_entry dml_message_inj)
  then have "map snd dmlKeywords ! j = map snd dmlKeywords ! i" using i jl by simp
  moreover have "j < length (map snd dmlKeywords)" "i < length (map snd dmlKeywords)"
    using i(1) jl by simp_all
  ultimately have "j = i" using dmlKeywords_distinct nth_eq_iff_index_eq by blast
  then show ?thesis using j(3) i by (simp add: regex_test_entry)
qed

section \<open>Reading byte counts\<close>

lemma cu_digit_char: "d < 10 \<Longrightarrow> cu (digit_char d) = 48 + int d"
  by (simp add: digit_char_def cu_char_of)

lemma digit_value_digit_char: "d < 10 \<Longrightarrow> digit_value (digit_char d) = Some (int d)"
  by (simp add: digit_value_def cu_digit_char Let_def)

lemma is_digit_digit_char: "d < 10 \<Longrightarrow> is_digit (digit_char d)"
  by (simp add: is_digit_def cu_digit_char)

lemma digits_value_append:
  "digits_value b (xs @ ys) acc =
     (case digits_value b xs acc of None \<Rightarrow> None | Some v \<Rightarrow> digits_value b ys v)"
  by (induction xs arbitrary: acc) (auto split: option.splits)

lemma decimal_digits: "decimal n \<noteq> [] \<and> list_all is_digit (decimal n)"
proof (induction n rule: decimal.induct)
  case (1 n)
  show ?case
  proof (cases "n < 10")
    case True
    then show ?thesis by (simp add: decimal.simps [of n] is_digit_digit_char)
  next
    case False
    then show ?thesis using 1 by (simp add: decimal.simps [of n] is_digit_digit_char)
  qed
qed

lemma digits_value_decimal: "digits_value 10 (decimal n) 0 = Some (int n)"
proof (induction n rule: decimal.induct)
  case (1 n)
  show ?case
  proof (cases "n < 10")
    case True
    then show ?thesis by (simp add: decimal.simps [of n] digit_value_digit_char)
  next
    case False
    have "int (n div 10) * 10 + int (n mod 10) = int n"
      by (metis mult.commute of_nat_add of_nat_mult of_nat_numeral mult_div_mod_eq)
    then show ?thesis
      using False 1 by (simp add: decimal.simps [of n] digits_value_append digit_value_digit_char)
  qed
qed

lemma is_digit_not_space: "is_digit c \<Longrightarrow> \<not> isSpace c"
  by (auto simp: is_digit_def isSpace_def isWhiteSpace_def isLineTerminator_def Let_def)

lemma trim_no_space_ends:
  assumes "s \<noteq> []" "\<not> isSpace (hd s)" "\<not> isSpace (last s)"
  shows "trim s = s"
proof -
  have 1: "dropWhile isSpace s = s" using assms(1,2) by (cases s) auto
  have "rev s \<noteq> []" "\<not> isSpace (hd (rev s))" using assms(1,3) by (simp_all add: hd_rev)
  then have 2: "dropWhile isSpace (rev s) = rev s" by (cases "rev s") auto
  show ?thesis by (simp add: trim_def 1 2)
qed

lemma StringToBigInt_decimal: "StringToBigInt (decimal n) = Some (int n)"
proof -
  obtain c cs where d: "decimal n = c # cs" using decimal_digits [of n] by (cases "decimal n") auto
  have all: "list_all is_digit (c # cs)" using decimal_digits [of n] d by simp
  then have "is_digit (hd (c # cs))" "is_digit (last (c # cs))"
    by (simp_all add: list_all_iff)
  then have t: "trim (decimal n) = c # cs"
    using trim_no_space_ends [of "c # cs"] is_digit_not_space d by simp
  have c: "c \<noteq> CHR ''+''" "c \<noteq> CHR ''-''"
    using all by (auto simp: is_digit_def cu_def)
  have h: "cs \<noteq> [] \<Longrightarrow> is_digit (hd cs)" using all by (cases cs) auto
  have x: "cs \<noteq> [] \<Longrightarrow> hd cs \<noteq> CHR ''x'' \<and> hd cs \<noteq> CHR ''X'' \<and> hd cs \<noteq> CHR ''o'' \<and>
      hd cs \<noteq> CHR ''O'' \<and> hd cs \<noteq> CHR ''b'' \<and> hd cs \<noteq> CHR ''B''"
    using h by (auto simp: is_digit_def cu_def)
  have "StringToBigInt (decimal n) = digits1 10 (c # cs)"
    using c x by (auto simp: StringToBigInt_def t)
  then show ?thesis using digits_value_decimal [of n] d by (simp add: digits1_def)
qed

lemma BigInt_decimal: "BigInt (decimal n) = Inr (int n)"
  by (simp add: BigInt_def StringToBigInt_decimal)

section \<open>What the classifier reports\<close>




text \<open>
  Statements that the classifier lets pass because of the way comments are removed: a
  block comment right after the keyword, a \<open>--\<close> inside a block comment, and a \<open>--\<close> inside a
  string literal.
\<close>

lemma comment_removal_hides_statements:
  "containsDMLStatements ''UPDATE/**/t SET x = 1'' = \<lparr>isDML = False, message = None\<rparr>"
  "containsDMLStatements ''/* -- */ DROP TABLE t'' = \<lparr>isDML = False, message = None\<rparr>"
  "containsDMLStatements ''SELECT '--' AS a; DROP TABLE t'' = \<lparr>isDML = False, message = None\<rparr>"
  by code_simp+

text \<open>
  Claim C4 fails on the query \<open>SELECT up/* UPDATE */date FROM t\<close>, in which \<open>UPDATE\<close> stands
  only inside the block comment: deleting the comment joins \<open>up\<close> and \<open>date\<close>, and the
  classifier reports \<open>UPDATE\<close>. With a space in the place of the comment nothing is
  reported.
\<close>

theorem fused_tokens_are_flagged:
  "strip_block_comments (strip_line_comments ''SELECT up/* UPDATE */date FROM t'') =
     ''SELECT update FROM t'' \<and>
   containsDMLStatements ''SELECT up/* UPDATE */date FROM t'' =
     \<lparr>isDML = True, message = Some (dml_message ''UPDATE'')\<rparr> \<and>
   containsDMLStatements ''SELECT up date FROM t'' = \<lparr>isDML = False, message = None\<rparr>"
  by code_simp

text \<open>
  Claim C5 fails on statements that the catalog has no pattern for: \<open>CREATE OR REPLACE\<close>
  of a function or of a procedure, and \<open>ALTER\<close> of a view. The classifier lets them pass.
\<close>

theorem create_or_replace_function_is_not_flagged:
  "containsDMLStatements ''CREATE OR REPLACE FUNCTION ds.f(x INT64) AS (x + 1)'' =
     \<lparr>isDML = False, message = None\<rparr> \<and>
   containsDMLStatements ''CREATE OR REPLACE PROCEDURE ds.p() BEGIN SELECT 1; END'' =
     \<lparr>isDML = False, message = None\<rparr> \<and>
   containsDMLStatements ''ALTER VIEW ds.v SET OPTIONS (description = 1)'' =
     \<lparr>isDML = False, message = None\<rparr>"
  by code_simp

text \<open>
  Claim C6 fails on the query \<open>SELECT updated_at, up/**/date FROM t\<close>: \<open>UPDATE\<close> stands in it
  nowhere as a whole word, only inside the identifier \<open>updated_at\<close>, yet the classifier
  reports \<open>UPDATE\<close>, because deleting the comment joins \<open>up\<close> and \<open>date\<close>.
\<close>

theorem fused_tokens_defeat_word_boundaries:
  "\<not> whole_word [''UPDATE''] ''SELECT updated_at, up/**/date FROM t'' \<and>
   containsDMLStatements ''SELECT updated_at, up/**/date FROM t'' =
     \<lparr>isDML = True, message = Some (dml_message ''UPDATE'')\<rparr>"
proof -
  have ku: "[''UPDATE''] \<noteq> []" "list_all keyword [''UPDATE'']" by code_simp+
  have "\<not> regex_test (keyword_regex [''UPDATE'']) ''SELECT updated_at, up/**/date FROM t''"
    by code_simp
  then have 1: "\<not> whole_word [''UPDATE''] ''SELECT updated_at, up/**/date FROM t''"
    using regex_test_keyword [OF ku] by simp
  have 2: "containsDMLStatements ''SELECT updated_at, up/**/date FROM t'' =
     \<lparr>isDML = True, message = Some (dml_message ''UPDATE'')\<rparr>" by code_simp
  show ?thesis using 1 2 by blast
qed

text \<open>Without the comment, the identifiers of the example are not reported.\<close>

lemma identifiers_are_not_flagged:
  "containsDMLStatements ''SELECT updated_at, insert_id FROM t'' = \<lparr>isDML = False, message = None\<rparr>"
  by code_simp

section \<open>The two operations\<close>

text \<open>
  The calls that a handler makes, in order, and the fact that a handler throws only on the
  empty query.
\<close>

lemma dry_run_query_calls:
  "snd (dry_run_query env q pid calls) =
     calls @ (if q = [] then [] else [CreateQueryJob (dry_run_options q pid)])"
  by (simp add: dry_run_query_def Let_def split: sum.splits)

lemma run_query_with_validation_calls:
  "snd (run_query_with_validation env q pid mr calls) =
     calls @
     (if q = [] \<or> isDML (containsDMLStatements q) then []
      else CreateQueryJob (dry_run_options q pid) #
        (case createQueryJob env (dry_run_options q pid) of
           Inl e \<Rightarrow> []
         | Inr tbp \<Rightarrow>
             (case BigInt tbp of
                Inl e \<Rightarrow> []
              | Inr n \<Rightarrow> if n < SIZE_LIMIT_BYTES then [Query (run_options q pid mr)] else [])))"
  by (simp add: run_query_with_validation_def Let_def split: sum.splits)

lemma run_query_with_validation_never_throws:
  "q \<noteq> [] \<Longrightarrow> \<exists>p. fst (run_query_with_validation env q pid mr calls) = Inr p"
  by (simp add: run_query_with_validation_def Let_def split: sum.splits)

lemma dry_run_query_never_throws:
  "q \<noteq> [] \<Longrightarrow> \<exists>p. fst (dry_run_query env q pid calls) = Inr p"
  by (simp add: dry_run_query_def Let_def split: sum.splits)

text \<open>Three evaluations that the examples below share.\<close>

lemma select_is_not_flagged:
  "containsDMLStatements ''SELECT * FROM t'' = \<lparr>isDML = False, message = None\<rparr>"
  by code_simp

lemma insert_is_flagged:
  "containsDMLStatements ''INSERT INTO t VALUES (1)'' =
     \<lparr>isDML = True, message = Some (dml_message ''INSERT INTO'')\<rparr>"
  by code_simp

lemma BigInt_examples:
  "BigInt ''1073741824'' = Inr 1073741824"
  "BigInt ''1099511627775'' = Inr 1099511627775"
  "BigInt ''1099511627776'' = Inr 1099511627776"
  "BigInt ''2000000000000'' = Inr 2000000000000"
  "BigInt ''9007199254740993'' = Inr 9007199254740993"
  by code_simp+

text \<open>
  Claim C8. With an empty query, either handler throws the invalid-parameters error and
  makes no call: the calls made so far are returned as they were, and nothing else has
  happened.
\<close>

theorem empty_query_is_invalid_params:
  "dry_run_query env [] pid calls = (Inl (McpError InvalidParams ''Query is required''), calls) \<and>
   run_query_with_validation env [] pid mr calls =
     (Inl (McpError InvalidParams ''Query is required''), calls)"
  by (simp add: dry_run_query_def run_query_with_validation_def)

text \<open>
  Claim C1. The handler of \<open>run_query_with_validation\<close> calls nothing at all when the
  classifier reports a mutating statement, and it never calls \<open>bigquery.query\<close> when the
  dry run gives a byte count of 1,099,511,627,776 or more.
\<close>

theorem execution_is_gated:
  "(isDML (containsDMLStatements q) \<longrightarrow>
      snd (run_query_with_validation env q pid mr []) = []) \<and>
   (createQueryJob env (dry_run_options q pid) = Inr tbp \<and> BigInt tbp = Inr n \<and>
    1099511627776 \<le> n \<longrightarrow>
      (\<forall>options. Query options \<notin> set (snd (run_query_with_validation env q pid mr []))))"
proof (intro conjI impI allI)
  assume "isDML (containsDMLStatements q)"
  then show "snd (run_query_with_validation env q pid mr []) = []"
    by (simp add: run_query_with_validation_calls)
next
  fix options
  assume "createQueryJob env (dry_run_options q pid) = Inr tbp \<and> BigInt tbp = Inr n \<and>
    1099511627776 \<le> n"
  then have "createQueryJob env (dry_run_options q pid) = Inr tbp" "BigInt tbp = Inr n"
    "\<not> n < SIZE_LIMIT_BYTES"
    by (simp_all add: SIZE_LIMIT_BYTES_def)
  then have "snd (run_query_with_validation env q pid mr []) = [] \<or>
      snd (run_query_with_validation env q pid mr []) = [CreateQueryJob (dry_run_options q pid)]"
    by (simp add: run_query_with_validation_calls)
  then show "Query options \<notin> set (snd (run_query_with_validation env q pid mr []))"
    by auto
qed

text \<open>
  Two requests for claim C1: an \<open>INSERT\<close>, which reaches no call, and a \<open>SELECT\<close> whose dry
  run reports 2,000,000,000,000 bytes, which reaches the dry run only.
\<close>

theorem execution_is_gated_witness:
  "isDML (containsDMLStatements ''INSERT INTO t VALUES (1)'') \<and>
   snd (run_query_with_validation (fixed_env (Inr ''1073741824'') (Inr [()]))
          ''INSERT INTO t VALUES (1)'' None None []) = [] \<and>
   createQueryJob (fixed_env (Inr ''2000000000000'') (Inr [()]))
     (dry_run_options ''SELECT * FROM t'' None) = Inr ''2000000000000'' \<and>
   BigInt ''2000000000000'' = Inr 2000000000000 \<and>
   (1099511627776 :: int) \<le> 2000000000000 \<and>
   (\<forall>options. Query options \<notin>
      set (snd (run_query_with_validation (fixed_env (Inr ''2000000000000'') (Inr [()]))
                  ''SELECT * FROM t'' None None [])))"
proof -
  have a: "isDML (containsDMLStatements ''INSERT INTO t VALUES (1)'')"
    by (simp add: insert_is_flagged)
  have b: "createQueryJob (fixed_env (Inr ''2000000000000'') (Inr [()]))
     (dry_run_options ''SELECT * FROM t'' None) = Inr ''2000000000000''"
    by (simp add: fixed_env_def)
  have c: "BigInt ''2000000000000'' = Inr 2000000000000" by (rule BigInt_examples)
  have d: "(1099511627776 :: int) \<le> 2000000000000" by simp
  show ?thesis
    using a b c d
      execution_is_gated [of "''INSERT INTO t VALUES (1)''"
        "fixed_env (Inr ''1073741824'') (Inr [()])" None None]
      execution_is_gated [of "''SELECT * FROM t''"
        "fixed_env (Inr ''2000000000000'') (Inr [()])" None None "''2000000000000''" 2000000000000]
    by blast
qed

text \<open>
  Claim C2. When the dry run gives the byte count \<open>n\<close>, the flag \<open>isBelowLimit\<close> of the report
  of \<open>dry_run_query\<close> is \<open>n < 1,099,511,627,776\<close> on integers, and
  \<open>run_query_with_validation\<close> goes on to \<open>bigquery.query\<close> exactly when
  \<open>n < 1,099,511,627,776\<close>, refusing the query as too large otherwise. \<open>BigInt\<close> reads the
  decimal text of every byte count \<open>k\<close> as \<open>k\<close> itself, however large.
\<close>

theorem limit_is_exact_strict_comparison:
  assumes "q \<noteq> []"
    and "createQueryJob env (dry_run_options q pid) = Inr tbp"
    and "BigInt tbp = Inr n"
  shows "BigInt (decimal k) = Inr (int k) \<and>
         (\<exists>f m. fst (dry_run_query env q pid calls) =
            Inr (DryRunReport tbp f (n < 1099511627776) m)) \<and>
         (\<not> isDML (containsDMLStatements q) \<longrightarrow>
            (Query (run_options q pid mr) \<in> set (snd (run_query_with_validation env q pid mr []))
               \<longleftrightarrow> n < 1099511627776) \<and>
            ((\<exists>f e. fst (run_query_with_validation env q pid mr []) = Inr (SizeExceeded tbp f e))
               \<longleftrightarrow> \<not> n < 1099511627776))"
  using assms BigInt_decimal [of k]
  by (auto simp: dry_run_query_def run_query_with_validation_def SIZE_LIMIT_BYTES_def Let_def
      split: sum.splits)

text \<open>
  The boundary for claim C2: 1,099,511,627,776 bytes are not below the limit. The byte count
  \<open>2^53 + 1\<close>, which no double holds, is read exactly.
\<close>

theorem limit_is_exact_strict_comparison_witness:
  "''SELECT * FROM t'' \<noteq> [] \<and>
   createQueryJob (fixed_env (Inr ''1099511627776'') (Inr [()]))
     (dry_run_options ''SELECT * FROM t'' None) = Inr ''1099511627776'' \<and>
   BigInt ''1099511627776'' = Inr 1099511627776 \<and>
   \<not> isDML (containsDMLStatements ''SELECT * FROM t'') \<and>
   BigInt (decimal 9007199254740993) = Inr 9007199254740993 \<and>
   (\<exists>f m. fst (dry_run_query (fixed_env (Inr ''1099511627776'') (Inr [()]))
                 ''SELECT * FROM t'' None []) =
            Inr (DryRunReport ''1099511627776'' f False m)) \<and>
   Query (run_options ''SELECT * FROM t'' None None) \<notin>
     set (snd (run_query_with_validation (fixed_env (Inr ''1099511627776'') (Inr [()]))
                 ''SELECT * FROM t'' None None [])) \<and>
   (\<exists>f e. fst (run_query_with_validation (fixed_env (Inr ''1099511627776'') (Inr [()]))
                 ''SELECT * FROM t'' None None []) =
            Inr (SizeExceeded ''1099511627776'' f e))"
proof -
  let ?env = "fixed_env (Inr ''1099511627776'') (Inr [()])"
  have a: "''SELECT * FROM t'' \<noteq> []" by simp
  have b: "createQueryJob ?env (dry_run_options ''SELECT * FROM t'' None) = Inr ''1099511627776''"
    by (simp add: fixed_env_def)
  have c: "BigInt ''1099511627776'' = Inr 1099511627776" by (rule BigInt_examples)
  have d: "\<not> isDML (containsDMLStatements ''SELECT * FROM t'')"
    by (simp add: select_is_not_flagged)
  have e: "\<not> (1099511627776 :: int) < 1099511627776" by simp
  show ?thesis
    using a b c d e
      limit_is_exact_strict_comparison [OF a b c, of 9007199254740993 "[]" None]
    by simp
qed

text \<open>
  Claim C7. The handler of \<open>dry_run_query\<close> does not look at what the query is: for every
  query that is not empty, mutating or not, it makes the dry run and, when the dry run gives
  a byte count, returns the report of the dry run.
\<close>

theorem estimate_skips_classification:
  assumes "q \<noteq> []"
    and "createQueryJob env (dry_run_options q pid) = Inr tbp"
    and "BigInt tbp = Inr n"
  shows "\<exists>p. dry_run_query env q pid [] = (Inr p, [CreateQueryJob (dry_run_options q pid)]) \<and>
           success p \<and> (\<exists>f m. p = DryRunReport tbp f (n < 1099511627776) m)"
proof -
  have "\<exists>f m. fst (dry_run_query env q pid []) = Inr (DryRunReport tbp f (n < 1099511627776) m)"
    using assms by (simp add: dry_run_query_def SIZE_LIMIT_BYTES_def Let_def)
  then obtain f m where
    "fst (dry_run_query env q pid []) = Inr (DryRunReport tbp f (n < 1099511627776) m)"
    by blast
  moreover have "snd (dry_run_query env q pid []) = [CreateQueryJob (dry_run_options q pid)]"
    using assms(1) by (simp add: dry_run_query_calls)
  ultimately have "dry_run_query env q pid [] =
      (Inr (DryRunReport tbp f (n < 1099511627776) m), [CreateQueryJob (dry_run_options q pid)])"
    by (simp add: prod_eq_iff)
  then show ?thesis by simp
qed

text \<open>A request for claim C7: the dry run of an \<open>INSERT\<close> is reported as a success.\<close>

theorem estimate_skips_classification_witness:
  "''INSERT INTO t VALUES (1)'' \<noteq> [] \<and>
   createQueryJob (fixed_env (Inr ''1073741824'') (Inr [()]))
     (dry_run_options ''INSERT INTO t VALUES (1)'' None) = Inr ''1073741824'' \<and>
   BigInt ''1073741824'' = Inr 1073741824 \<and>
   isDML (containsDMLStatements ''INSERT INTO t VALUES (1)'') \<and>
   (\<exists>p. dry_run_query (fixed_env (Inr ''1073741824'') (Inr [()]))
             ''INSERT INTO t VALUES (1)'' None [] =
           (Inr p, [CreateQueryJob (dry_run_options ''INSERT INTO t VALUES (1)'' None)]) \<and>
         success p \<and> (\<exists>f m. p = DryRunReport ''1073741824'' f True m))"
proof -
  let ?env = "fixed_env (Inr ''1073741824'') (Inr [()])"
  have a: "''INSERT INTO t VALUES (1)'' \<noteq> []" by simp
  have b: "createQueryJob ?env (dry_run_options ''INSERT INTO t VALUES (1)'' None) = Inr ''1073741824''"
    by (simp add: fixed_env_def)
  have c: "BigInt ''1073741824'' = Inr 1073741824" by (rule BigInt_examples)
  have d: "isDML (containsDMLStatements ''INSERT INTO t VALUES (1)'')"
    by (simp add: insert_is_flagged)
  show ?thesis
    using a b c d estimate_skips_classification [OF a b c] by simp
qed



text \<open>
  Claim C10. The classifier knows no string literals: the query
  \<open>SELECT 'UPDATE me' AS note FROM t\<close>, which only reads, is reported as \<open>UPDATE\<close>, and
  \<open>run_query_with_validation\<close> refuses it without a call.
\<close>

theorem keyword_in_string_literal_is_rejected:
  "containsDMLStatements ''SELECT 'UPDATE me' AS note FROM t'' =
     \<lparr>isDML = True, message = Some (dml_message ''UPDATE'')\<rparr> \<and>
   run_query_with_validation env ''SELECT 'UPDATE me' AS note FROM t'' pid mr [] =
     (Inr (Failure (dml_message ''UPDATE'')), [])"
proof -
  have c: "containsDMLStatements ''SELECT 'UPDATE me' AS note FROM t'' =
     \<lparr>isDML = True, message = Some (dml_message ''UPDATE'')\<rparr>"
    by code_simp
  then show ?thesis by (simp add: run_query_with_validation_def)
qed

end
